theory Spec2Isabelle
  imports Main "HOL-Library.Sublist"
begin

section \<open>Python values used by ask.py\<close>

text \<open>
  The exceptions the modelled code can raise. \<open>ValueError\<close> is what Python's
  \<^verbatim>\<open>range\<close> raises for a zero step; \<open>Exception msg\<close> is the plain
  \<^verbatim>\<open>Exception(msg)\<close> that ask.py raises itself.
\<close>

datatype error = ValueError | Exception string

text \<open>
  A Python \<^verbatim>\<open>dict\<close> iterates in insertion order and holds each key once, so it is
  an association list whose keys are distinct. \<open>dict_set d k v\<close> is the statement
  \<^verbatim>\<open>d[k] = v\<close>: an existing key keeps its position and gets the new value, a new
  key goes to the end.
\<close>

fun dict_set :: "('k \<times> 'v) list \<Rightarrow> 'k \<Rightarrow> 'v \<Rightarrow> ('k \<times> 'v) list" where
  "dict_set [] k v = [(k, v)]"
| "dict_set ((k', v') # d) k v =
     (if k' = k then (k', v) # d else (k', v') # dict_set d k v)"

definition keys :: "('k \<times> 'v) list \<Rightarrow> 'k list" where
  "keys d = map fst d"

text \<open>
  \<^verbatim>\<open>enumerate(xs)\<close>: the elements paired with their positions, from 0.
\<close>

definition enumerate_from0 :: "'a list \<Rightarrow> (nat \<times> 'a) list" where
  "enumerate_from0 xs = zip [0..<length xs] xs"

text \<open>
  A slice \<^verbatim>\<open>xs[lo:hi]\<close> with integer bounds. A negative bound counts from the end
  and every bound is clamped to \<open>[0, len]\<close>; the slice is empty when the clamped
  upper bound is not above the lower one.
\<close>

definition slice_index :: "nat \<Rightarrow> int \<Rightarrow> nat" where
  "slice_index n i = (if i < 0 then nat (max 0 (int n + i)) else min n (nat i))"

definition py_slice :: "'a list \<Rightarrow> int \<Rightarrow> int \<Rightarrow> 'a list" where
  "py_slice xs lo hi =
     (let n = length xs; a = slice_index n lo; b = slice_index n hi
      in take (b - a) (drop a xs))"

text \<open>
  \<^verbatim>\<open>range(start, stop, step)\<close> as the list of values its iterator yields. A zero
  step raises \<^verbatim>\<open>ValueError\<close>; a positive step counts up while the value is below
  \<open>stop\<close>, a negative one counts down while it is above.
\<close>

function range_up :: "int \<Rightarrow> int \<Rightarrow> int \<Rightarrow> int list" where
  "range_up pos stop step =
     (if 0 < step \<and> pos < stop then pos # range_up (pos + step) stop step else [])"
  by pat_completeness auto
termination
  by (relation "measure (\<lambda>(pos, stop, step). nat (stop - pos))") auto

function range_down :: "int \<Rightarrow> int \<Rightarrow> int \<Rightarrow> int list" where
  "range_down pos stop step =
     (if step < 0 \<and> stop < pos then pos # range_down (pos + step) stop step else [])"
  by pat_completeness auto
termination
  by (relation "measure (\<lambda>(pos, stop, step). nat (pos - stop))") auto

declare range_up.simps [simp del]
declare range_down.simps [simp del]

definition py_range :: "int \<Rightarrow> int \<Rightarrow> int \<Rightarrow> error + int list" where
  "py_range start stop step =
     (if step = 0 then Inl ValueError
      else if 0 < step then Inr (range_up start stop step)
      else Inr (range_down start stop step))"

section \<open>Ask.chunk\_results\<close>

text \<open>
  The inner loop of \<^verbatim>\<open>chunk_results\<close>:
  \<^verbatim>\<open>for pos in range(0, len(text), size - overlap): chunks.append(text[pos : pos + size])\<close>.
  The text is a list of characters of any type (Python's \<^verbatim>\<open>str\<close> is a sequence of
  code points).
\<close>

fun chunk_loop :: "'a list \<Rightarrow> int \<Rightarrow> int list \<Rightarrow> 'a list list \<Rightarrow> 'a list list" where
  "chunk_loop text sz [] chunks = chunks"
| "chunk_loop text sz (pos # ps) chunks =
     chunk_loop text sz ps (chunks @ [py_slice text pos (pos + sz)])"

definition chunk_text :: "'a list \<Rightarrow> int \<Rightarrow> int \<Rightarrow> error + 'a list list" where
  "chunk_text text sz overlap =
     (case py_range 0 (int (length text)) (sz - overlap) of
        Inl e \<Rightarrow> Inl e
      | Inr ps \<Rightarrow> Inr (chunk_loop text sz ps []))"

text \<open>
  The outer loop over \<^verbatim>\<open>scrape_results.items()\<close>, storing each chunk list with
  \<^verbatim>\<open>chunking_results[url] = chunks\<close>. An exception of the inner loop leaves the
  function at once.
\<close>

fun chunk_items ::
  "('k \<times> 'a list) list \<Rightarrow> int \<Rightarrow> int \<Rightarrow> ('k \<times> 'a list list) list
     \<Rightarrow> error + ('k \<times> 'a list list) list" where
  "chunk_items [] sz overlap acc = Inr acc"
| "chunk_items ((url, text) # rest) sz overlap acc =
     (case chunk_text text sz overlap of
        Inl e \<Rightarrow> Inl e
      | Inr chunks \<Rightarrow> chunk_items rest sz overlap (dict_set acc url chunks))"

definition chunk_results ::
  "('k \<times> 'a list) list \<Rightarrow> int \<Rightarrow> int \<Rightarrow> error + ('k \<times> 'a list list) list" where
  "chunk_results scrape_results sz overlap = chunk_items scrape_results sz overlap []"

section \<open>Strings and numbers as ask.py formats them\<close>

text \<open>
  \<^verbatim>\<open>str(n)\<close> for a natural number: its decimal digits. The f-strings of ask.py
  format \<^verbatim>\<open>i+1\<close> this way.
\<close>

definition digit_char :: "nat \<Rightarrow> char" where
  "digit_char d = char_of (48 + d)"

function str_nat :: "nat \<Rightarrow> string" where
  "str_nat n = (if n < 10 then [digit_char n] else str_nat (n div 10) @ [digit_char (n mod 10)])"
  by pat_completeness auto
termination
  by (relation "measure (\<lambda>n. n)") auto

declare str_nat.simps [simp del]

text \<open>
  \<^verbatim>\<open>str.isspace\<close> on the code points below 256, \<^verbatim>\<open>s.split()\<close> (split at runs of
  whitespace, no empty words), \<^verbatim>\<open>sep.join(words)\<close> and \<^verbatim>\<open>s.strip()\<close>.
\<close>

definition isspace :: "char \<Rightarrow> bool" where
  "isspace c = ((of_char c :: nat) \<in> set [9, 10, 11, 12, 13, 28, 29, 30, 31, 32, 133, 160])"

fun split_ws :: "string \<Rightarrow> string \<Rightarrow> string list" where
  "split_ws [] w = (if w = [] then [] else [w])"
| "split_ws (c # cs) w =
     (if isspace c then (if w = [] then split_ws cs [] else w # split_ws cs [])
      else split_ws cs (w @ [c]))"

definition py_split :: "string \<Rightarrow> string list" where
  "py_split s = split_ws s []"

fun py_join :: "string \<Rightarrow> string list \<Rightarrow> string" where
  "py_join sep [] = []"
| "py_join sep [w] = w"
| "py_join sep (w # ws) = w @ sep @ py_join sep ws"

definition py_strip :: "string \<Rightarrow> string" where
  "py_strip s = rev (dropWhile isspace (rev (dropWhile isspace s)))"

section \<open>Logging\<close>

text \<open>
  The calls made on the logger, in order. Which of them the handler prints depends on
  the log level and is not modelled.
\<close>

datatype log_entry = Debug string | Info string | Warning string | Error string

section \<open>Ask.read\_env\_variables and Ask.\_\_init\_\_\<close>

text \<open>
  The environment is \<^verbatim>\<open>os.environ\<close>: \<^verbatim>\<open>os.environ.get(k)\<close> is \<open>None\<close> for a
  variable that is not set. A variable set to the empty string is set.
\<close>

record config =
  search_api_key :: string
  search_project_id :: string
  llm_api_key :: string
  llm_base_url :: string

definition read_env_variables :: "(string \<Rightarrow> string option) \<Rightarrow> error + config" where
  "read_env_variables env =
     (let err_msg = [];
          err_msg = (if env ''SEARCH_API_KEY'' = None
                     then err_msg @ ''SEARCH_API_KEY env variable not set.'' @ [CHR 0x0A]
                     else err_msg);
          err_msg = (if env ''SEARCH_PROJECT_KEY'' = None
                     then err_msg @ ''SEARCH_PROJECT_KEY env variable not set.'' @ [CHR 0x0A]
                     else err_msg);
          err_msg = (if env ''LLM_API_KEY'' = None
                     then err_msg @ ''LLM_API_KEY env variable not set.'' @ [CHR 0x0A]
                     else err_msg)
      in if err_msg \<noteq> [] then Inl (Exception ([CHR 0x0A] @ err_msg @ [CHR 0x0A]))
         else Inr \<lparr> search_api_key = the (env ''SEARCH_API_KEY''),
                    search_project_id = the (env ''SEARCH_PROJECT_KEY''),
                    llm_api_key = the (env ''LLM_API_KEY''),
                    llm_base_url = (case env ''LLM_BASE_URL'' of
                                      None \<Rightarrow> ''https://api.openai.com/v1''
                                    | Some u \<Rightarrow> u) \<rparr>)"

text \<open>
  The constructor reads the environment first; only then does it create the
  \<^verbatim>\<open>vectordb.Memory()\<close>, an object of a library outside ask.py, which is a parameter
  here.
\<close>

record 'm ask =
  ask_config :: config
  ask_memory :: 'm

definition ask_init :: "(string \<Rightarrow> string option) \<Rightarrow> 'm \<Rightarrow> error + 'm ask" where
  "ask_init env new_memory =
     (case read_env_variables env of
        Inl e \<Rightarrow> Inl e
      | Inr cfg \<Rightarrow> Inr \<lparr> ask_config = cfg, ask_memory = new_memory \<rparr>)"

section \<open>Ask.scrape\_urls\<close>

text \<open>
  What the body of the \<^verbatim>\<open>try\<close> meets for one URL: an exception of class
  \<^verbatim>\<open>Exception\<close>, which the \<^verbatim>\<open>except\<close> clause catches, raised by the request
  (a timeout too) or by the parser (with its message), a page whose \<^verbatim>\<open>soup.body\<close> is
  \<^verbatim>\<open>None\<close>, or the text of the body. The network is a parameter: \<open>session_get i url\<close>
  is what the \<open>i\<close>-th iteration of the loop meets for \<open>url\<close>, so a URL that occurs
  twice may fail once and succeed once.
\<close>

datatype fetched = Raised string | NoBody | Body string

fun scrape_loop ::
  "(nat \<Rightarrow> string \<Rightarrow> fetched) \<Rightarrow> (nat \<times> string) list
     \<Rightarrow> (string \<times> string) list \<times> log_entry list
     \<Rightarrow> (string \<times> string) list \<times> log_entry list" where
  "scrape_loop session_get [] (scrape_results, log) = (scrape_results, log)"
| "scrape_loop session_get ((i, url) # rest) (scrape_results, log) =
     (case session_get i url of
        Raised e \<Rightarrow>
          scrape_loop session_get rest
            (scrape_results, log @ [Error (''scraping error '' @ url @ '': '' @ e)])
      | NoBody \<Rightarrow>
          scrape_loop session_get rest
            (scrape_results,
             log @ [Warning (''No body tag found in the response for url: '' @ url)])
      | Body body_text \<Rightarrow>
          (let body_text = py_strip (py_join '' '' (py_split body_text))
           in scrape_loop session_get rest
                (dict_set scrape_results url body_text,
                 log @ [Debug (''Scraped '' @ url @ '': '' @ body_text @ ''...'')])))"

definition scrape_urls ::
  "(nat \<Rightarrow> string \<Rightarrow> fetched) \<Rightarrow> string list \<Rightarrow> (string \<times> string) list \<times> log_entry list" where
  "scrape_urls session_get urls = scrape_loop session_get (enumerate_from0 urls) ([], [])"

section \<open>Ask.save\_to\_db and Ask.vector\_search\<close>

text \<open>
  \<^verbatim>\<open>self.memory\<close> is a \<^verbatim>\<open>vectordb.Memory\<close>, whose code is not part of ask.py. Its
  \<^verbatim>\<open>save\<close> and \<^verbatim>\<open>search\<close> are parameters: \<open>save m chunk (url, i)\<close> stands for
  \<^verbatim>\<open>memory.save(texts=chunk, metadata={"url": url, "chunk": i})\<close> and may raise.
  A retrieved entry has the fields ask.py reads: \<^verbatim>\<open>result['chunk']\<close> and
  \<^verbatim>\<open>result['metadata']['url']\<close>.
\<close>

record retrieved =
  chunk :: string
  metadata_url :: string

fun save_chunks ::
  "('m \<Rightarrow> string \<Rightarrow> string \<times> nat \<Rightarrow> error + 'm) \<Rightarrow> 'm \<Rightarrow> string \<Rightarrow> (nat \<times> string) list
     \<Rightarrow> error + 'm" where
  "save_chunks save m url [] = Inr m"
| "save_chunks save m url ((i, c) # rest) =
     (case save m c (url, i) of
        Inl e \<Rightarrow> Inl e
      | Inr m' \<Rightarrow> save_chunks save m' url rest)"

fun save_items ::
  "('m \<Rightarrow> string \<Rightarrow> string \<times> nat \<Rightarrow> error + 'm) \<Rightarrow> 'm \<Rightarrow> (string \<times> string list) list
     \<Rightarrow> error + 'm" where
  "save_items save m [] = Inr m"
| "save_items save m ((url, chunks) # rest) =
     (case save_chunks save m url (enumerate_from0 chunks) of
        Inl e \<Rightarrow> Inl e
      | Inr m' \<Rightarrow> save_items save m' rest)"

definition save_to_db ::
  "('m \<Rightarrow> string \<Rightarrow> string \<times> nat \<Rightarrow> error + 'm) \<Rightarrow> 'm \<Rightarrow> (string \<times> string list) list
     \<Rightarrow> error + 'm" where
  "save_to_db save m chunking_results = save_items save m chunking_results"

definition vector_search ::
  "('m \<Rightarrow> string \<Rightarrow> nat \<Rightarrow> error + retrieved list) \<Rightarrow> 'm \<Rightarrow> string \<Rightarrow> error + retrieved list" where
  "vector_search search m query = search m query 10"

section \<open>Ask.run\_inference\<close>

text \<open>
  The loop that builds the context:
  \<^verbatim>\<open>for i, chunk in enumerate(matched_chunks): context += f"[{i+1}] {chunk['chunk']}\n"\<close>.
\<close>

fun context_loop :: "(nat \<times> retrieved) list \<Rightarrow> string \<Rightarrow> string" where
  "context_loop [] context = context"
| "context_loop ((i, c) # rest) context =
     context_loop rest (context @ ''['' @ str_nat (i + 1) @ ''] '' @ chunk c @ [CHR 0x0A])"

definition build_context :: "retrieved list \<Rightarrow> string" where
  "build_context matched_chunks = context_loop (enumerate_from0 matched_chunks) []"

text \<open>
  \<^verbatim>\<open>user_prompt_template.format(query=query, context=context)\<close>: the template with
  the query and the context in the places of \<^verbatim>\<open>{query}\<close> and \<^verbatim>\<open>{context}\<close>.
\<close>

definition system_prompt :: string where
  "system_prompt = ''You are expert summarizing the answers based on the provided contents.''"

definition user_prompt :: "string \<Rightarrow> string \<Rightarrow> string" where
  "user_prompt query context =
     [CHR 0x0A]
     @ ''Given the context as a sequence of references with a reference id in the '' @ [CHR 0x0A]
     @ ''format of a leading [x], please answer the following question:'' @ [CHR 0x0A]
     @ [CHR 0x0A]
     @ query @ [CHR 0x0A]
     @ [CHR 0x0A]
     @ ''In the answer, use format [1], [2], ..., [n] in line where the reference is used. ''
     @ [CHR 0x0A]
     @ ''For example, '' @ [CHR 0x22] @ ''According to the research from Google[3], ...''
     @ [CHR 0x22] @ ''.'' @ [CHR 0x0A]
     @ [CHR 0x0A]
     @ ''Please create the answer strictly related to the context. If the context has no''
     @ [CHR 0x0A]
     @ ''information about the query, please write '' @ [CHR 0x22]
     @ ''No related information found in the context.'' @ [CHR 0x22] @ [CHR 0x0A]
     @ [CHR 0x0A]
     @ ''Here is the context:'' @ [CHR 0x0A]
     @ context @ [CHR 0x0A]"

text \<open>
  The chat model is the hosted completion call, a parameter: \<open>chat cfg model_name
  messages\<close> is the content of the response, \<open>None\<close> when there is no response, or the
  exception the call raises.
\<close>

definition run_inference ::
  "(config \<Rightarrow> string \<Rightarrow> string list \<Rightarrow> error + string option) \<Rightarrow> config
     \<Rightarrow> string \<Rightarrow> string \<Rightarrow> retrieved list \<Rightarrow> error + string" where
  "run_inference chat cfg query model_name matched_chunks =
     (let context = build_context matched_chunks;
          human_message = user_prompt query context
      in case chat cfg model_name [system_prompt, human_message] of
           Inl e \<Rightarrow> Inl e
         | Inr None \<Rightarrow> Inl (Exception ''No completion from the API'')
         | Inr (Some content) \<Rightarrow> Inr content)"

section \<open>The command search\_extract\_summarize\<close>

text \<open>
  The loop that prints the references:
  \<^verbatim>\<open>for i, result in enumerate(results): click.echo(f"[{i+1}] {result['metadata']['url']}")\<close>.
  The output is the list of the strings echoed.
\<close>

fun echo_references :: "(nat \<times> retrieved) list \<Rightarrow> string list \<Rightarrow> string list" where
  "echo_references [] out = out"
| "echo_references ((i, r) # rest) out =
     echo_references rest (out @ [''['' @ str_nat (i + 1) @ ''] '' @ metadata_url r])"

definition echo_answer :: "string \<Rightarrow> retrieved list \<Rightarrow> string list" where
  "echo_answer answer results =
     echo_references (enumerate_from0 results)
       [''# Answer'' @ [CHR 0x0A, CHR 0x0A] @ answer @ [CHR 0x0A], ''# References'']"

text \<open>
  The options of the command line, and what lies outside ask.py: the environment, the
  \<^verbatim>\<open>Memory\<close> object and its two methods, the search API behind \<^verbatim>\<open>search_web\<close>
  (whose result or exception is taken as given), the network and the chat model.
\<close>

record cli_options =
  cli_query :: string
  cli_date_restrict :: "int option"
  cli_target_site :: "string option"
  cli_model_name :: string
  cli_log_level :: string

record 'm externals =
  environ :: "string \<Rightarrow> string option"
  new_memory :: 'm
  search_web :: "config \<Rightarrow> string \<Rightarrow> int option \<Rightarrow> string option \<Rightarrow> error + string list"
  session_get :: "nat \<Rightarrow> string \<Rightarrow> fetched"
  memory_save :: "'m \<Rightarrow> string \<Rightarrow> string \<times> nat \<Rightarrow> error + 'm"
  memory_search :: "'m \<Rightarrow> string \<Rightarrow> nat \<Rightarrow> error + retrieved list"
  chat_model :: "config \<Rightarrow> string \<Rightarrow> string list \<Rightarrow> error + string option"

text \<open>
  A run of the command: the stages it entered, in order, the value each stage produced,
  what was echoed, and the exception that ended the run, if one did.
\<close>

datatype stage = Search | Scrape | Chunk | Save | VectorSearch | Inference

record run =
  stages :: "stage list"
  links :: "string list"
  scrape_results :: "(string \<times> string) list"
  chunking_results :: "(string \<times> string list) list"
  results :: "retrieved list"
  echoed :: "string list"
  failure :: "error option"

definition search_extract_summarize :: "'m externals \<Rightarrow> cli_options \<Rightarrow> run" where
  "search_extract_summarize ext opts =
     (let r0 = \<lparr> stages = [], links = [], scrape_results = [], chunking_results = [],
                 results = [], echoed = [], failure = None \<rparr>
      in case ask_init (environ ext) (new_memory ext) of
           Inl e \<Rightarrow> r0\<lparr> failure := Some e \<rparr>
         | Inr ask \<Rightarrow>
      (let r1 = r0\<lparr> stages := [Search] \<rparr>
       in case search_web ext (ask_config ask) (cli_query opts) (cli_date_restrict opts)
                 (cli_target_site opts) of
            Inl e \<Rightarrow> r1\<lparr> failure := Some e \<rparr>
          | Inr ls \<Rightarrow>
      (let r2 = r1\<lparr> stages := [Search, Scrape], links := ls,
                      scrape_results := fst (scrape_urls (session_get ext) ls) \<rparr>;
           r3 = r2\<lparr> stages := [Search, Scrape, Chunk] \<rparr>
       in case chunk_results (scrape_results r2) 1000 100 of
            Inl e \<Rightarrow> r3\<lparr> failure := Some e \<rparr>
          | Inr cr \<Rightarrow>
      (let r4 = r3\<lparr> stages := [Search, Scrape, Chunk, Save], chunking_results := cr \<rparr>
       in case save_to_db (memory_save ext) (ask_memory ask) cr of
            Inl e \<Rightarrow> r4\<lparr> failure := Some e \<rparr>
          | Inr mem \<Rightarrow>
      (let r5 = r4\<lparr> stages := [Search, Scrape, Chunk, Save, VectorSearch] \<rparr>
       in case vector_search (memory_search ext) mem (cli_query opts) of
            Inl e \<Rightarrow> r5\<lparr> failure := Some e \<rparr>
          | Inr res \<Rightarrow>
      (let r6 = r5\<lparr> stages := [Search, Scrape, Chunk, Save, VectorSearch, Inference],
                      results := res \<rparr>
       in case run_inference (chat_model ext) (ask_config ask) (cli_query opts)
                 (cli_model_name opts) res of
            Inl e \<Rightarrow> r6\<lparr> failure := Some e \<rparr>
          | Inr answer \<Rightarrow> r6\<lparr> echoed := echo_answer answer res \<rparr>))))))"

section \<open>Example runs\<close>

text \<open>
  A small world in which the command runs to its end: the three credentials are set, the
  search gives two links, the first page has a body and the request for the second
  raises, the memory gives back eleven entries and the chat model answers.
\<close>

definition example_entries :: "retrieved list" where
  "example_entries =
     [\<lparr> chunk = ''A'', metadata_url = ''k'' \<rparr>, \<lparr> chunk = ''B'', metadata_url = ''j'' \<rparr>,
      \<lparr> chunk = ''C'', metadata_url = ''i'' \<rparr>, \<lparr> chunk = ''D'', metadata_url = ''h'' \<rparr>,
      \<lparr> chunk = ''E'', metadata_url = ''g'' \<rparr>, \<lparr> chunk = ''F'', metadata_url = ''f'' \<rparr>,
      \<lparr> chunk = ''G'', metadata_url = ''e'' \<rparr>, \<lparr> chunk = ''H'', metadata_url = ''d'' \<rparr>,
      \<lparr> chunk = ''I'', metadata_url = ''c'' \<rparr>, \<lparr> chunk = ''J'', metadata_url = ''b'' \<rparr>,
      \<lparr> chunk = ''K'', metadata_url = ''a'' \<rparr>]"


definition example_options :: cli_options where
  "example_options =
     \<lparr> cli_query = ''q'', cli_date_restrict = None, cli_target_site = None,
       cli_model_name = ''gpt-4o-mini'', cli_log_level = ''INFO'' \<rparr>"

text \<open>
  The same world with a first page of 2000 characters without whitespace: 900 times
  \<^verbatim>\<open>a\<close>, 900 times \<^verbatim>\<open>b\<close>, 200 times \<^verbatim>\<open>c\<close>.
\<close>

definition example_page :: string where
  "example_page = replicate 900 (CHR ''a'') @ replicate 900 (CHR ''b'') @ replicate 200 (CHR ''c'')"

definition example_page_externals :: "unit externals" where
  "example_page_externals =
     \<lparr> environ = [''SEARCH_API_KEY'' \<mapsto> ''k'', ''SEARCH_PROJECT_KEY'' \<mapsto> ''p'',
                   ''LLM_API_KEY'' \<mapsto> ''l''],
       new_memory = (),
       search_web = (\<lambda>cfg query date_restrict target_site. Inr [''u'', ''v'']),
       session_get = (\<lambda>i url. if url = ''u'' then Body example_page else Raised ''boom''),
       memory_save = (\<lambda>m c identity. Inr m),
       memory_search = (\<lambda>m query top_n. Inr example_entries),
       chat_model = (\<lambda>cfg model_name messages. Inr (Some ''ans'')) \<rparr>"

text \<open>
  A network whose first request gives a body and whose later requests raise.
\<close>

definition example_flaky_get :: "nat \<Rightarrow> string \<Rightarrow> fetched" where
  "example_flaky_get i url = (if i = 0 then Body ''x'' else Raised ''boom'')"

section \<open>Properties of the Python primitives\<close>

lemma take_min_length: "take (min (length xs) n) xs = take n xs"
  by (cases "n \<le> length xs") (simp_all add: min_absorb1 min_absorb2)

lemma py_slice_window:
  assumes "0 \<le> pos" "0 \<le> pos + sz"
  shows "py_slice text pos (pos + sz) = take (nat sz) (drop (nat pos) text)"
proof -
  have d: "nat (pos + sz) - nat pos = nat sz"
    using assms by arith
  have a: "slice_index (length text) pos = min (length text) (nat pos)"
    using assms by (simp add: slice_index_def)
  have b: "slice_index (length text) (pos + sz) = min (length text) (nat (pos + sz))"
    using assms by (simp add: slice_index_def)
  show ?thesis
  proof (cases "nat pos \<le> length text")
    case True
    have m: "min (length text) (nat (pos + sz)) - nat pos = min (length (drop (nat pos) text)) (nat sz)"
      using True d by (simp add: min_def) arith
    have "py_slice text pos (pos + sz) =
            take (min (length (drop (nat pos) text)) (nat sz)) (drop (nat pos) text)"
      unfolding py_slice_def Let_def a b using True m by (simp only: min_absorb2)
    then show ?thesis by (simp only: take_min_length)
  next
    case False
    then have "drop (min (length text) (nat pos)) text = []" "drop (nat pos) text = []"
      by simp_all
    then show ?thesis
      unfolding py_slice_def Let_def a b by simp
  qed
qed

lemma range_count_step:
  fixes pos stop step :: int
  assumes "0 < step" "pos < stop"
  shows "nat ((stop - pos + step - 1) div step) =
         Suc (nat ((stop - (pos + step) + step - 1) div step))"
proof -
  have "(stop - pos + step - 1) div step = ((stop - pos - 1) + step) div step"
    by (simp add: algebra_simps)
  also have "\<dots> = (stop - pos - 1) div step + 1"
    using assms(1) by (intro div_add_self2) simp
  finally have e: "(stop - pos + step - 1) div step = (stop - pos - 1) div step + 1" .
  have "0 \<le> (stop - pos - 1) div step"
    using assms by (simp add: pos_imp_zdiv_nonneg_iff)
  moreover have "stop - (pos + step) + step - 1 = stop - pos - 1" by simp
  ultimately show ?thesis using e by simp
qed

lemma range_count_zero:
  fixes pos stop step :: int
  assumes "0 < step" "\<not> pos < stop"
  shows "nat ((stop - pos + step - 1) div step) = 0"
proof -
  have "(stop - pos + step - 1) div step \<le> (step - 1) div step"
    using assms by (intro zdiv_mono1) simp_all
  also have "(step - 1) div step = 0"
    using assms(1) by (simp add: div_pos_pos_trivial)
  finally show ?thesis by simp
qed

lemma range_up_closed:
  "0 < step \<Longrightarrow>
   range_up pos stop step =
     map (\<lambda>k. pos + int k * step) [0..<nat ((stop - pos + step - 1) div step)]"
proof (induction pos stop step rule: range_up.induct)
  case (1 pos stop step)
  show ?case
  proof (cases "pos < stop")
    case True
    let ?m = "nat ((stop - (pos + step) + step - 1) div step)"
    have "range_up pos stop step = pos # range_up (pos + step) stop step"
      using True 1(2) by (subst range_up.simps) simp
    also have "\<dots> = pos # map (\<lambda>k. (pos + step) + int k * step) [0..<?m]"
      using 1 True by simp
    also have "\<dots> = map (\<lambda>k. pos + int k * step) [0..<Suc ?m]"
      by (simp add: upt_conv_Cons map_Suc_upt[symmetric] algebra_simps del: upt_Suc)
    finally show ?thesis
      using range_count_step[OF 1(2) True] by simp
  next
    case False
    have "range_up pos stop step = []"
      using False by (subst range_up.simps) simp
    then show ?thesis
      using range_count_zero[OF 1(2) False] by simp
  qed
qed

section \<open>Properties of chunk\_results\<close>

lemma chunk_loop_map:
  "chunk_loop text sz ps acc = acc @ map (\<lambda>pos. py_slice text pos (pos + sz)) ps"
  by (induction ps arbitrary: acc) simp_all

lemma chunk_text_pos_step:
  assumes "overlap < sz"
  shows "chunk_text text sz overlap =
     Inr (map (\<lambda>k. py_slice text (int k * (sz - overlap)) (int k * (sz - overlap) + sz))
            [0..<nat ((int (length text) + (sz - overlap) - 1) div (sz - overlap))])"
proof -
  have st: "0 < sz - overlap" using assms by simp
  have "py_range 0 (int (length text)) (sz - overlap) =
        Inr (map (\<lambda>k. int k * (sz - overlap))
              [0..<nat ((int (length text) + (sz - overlap) - 1) div (sz - overlap))])"
    using st range_up_closed[OF st, of 0 "int (length text)"] by (simp add: py_range_def)
  then show ?thesis
    by (simp add: chunk_text_def chunk_loop_map o_def)
qed

lemma count_nat:
  fixes st :: int
  assumes "0 < st"
  shows "nat ((int L + st - 1) div st) = (L + nat st - 1) div nat st"
proof -
  have "nat ((int L + st - 1) div st) = nat (int L + st - 1) div nat st"
    using assms by (intro nat_div_distrib) simp
  moreover have "nat (int L + st - 1) = L + nat st - 1"
    using assms by arith
  ultimately show ?thesis by simp
qed

lemma chunk_text_valid:
  assumes "0 \<le> overlap" "overlap < sz"
  shows "chunk_text text sz overlap =
     Inr (map (\<lambda>k. take (nat sz) (drop (k * nat (sz - overlap)) text))
            [0..<(length text + nat (sz - overlap) - 1) div nat (sz - overlap)])"
proof -
  have st: "0 < sz - overlap" using assms by simp
  have w: "py_slice text (int k * (sz - overlap)) (int k * (sz - overlap) + sz) =
           take (nat sz) (drop (k * nat (sz - overlap)) text)" for k
  proof -
    have "0 \<le> int k * (sz - overlap)" using st by simp
    moreover have "0 \<le> int k * (sz - overlap) + sz" using st assms by simp
    moreover have "nat (int k * (sz - overlap)) = k * nat (sz - overlap)"
      using st by (simp add: nat_mult_distrib)
    ultimately show ?thesis using py_slice_window by metis
  qed
  show ?thesis
    unfolding chunk_text_pos_step[OF assms(2)] count_nat[OF st] w ..
qed

lemma starts_below:
  fixes st :: nat
  assumes "0 < st" "k < (L + st - 1) div st"
  shows "k * st < L"
proof -
  have "Suc k \<le> (L + st - 1) div st" using assms(2) by simp
  then have "Suc k * st \<le> L + st - 1"
    using assms(1) by (simp add: less_eq_div_iff_mult_less_eq)
  then show ?thesis using assms(1) by simp
qed

lemma starts_cover:
  fixes st :: nat
  assumes "0 < st"
  shows "L \<le> ((L + st - 1) div st) * st"
proof -
  have "L + st - 1 < ((L + st - 1) div st) * st + st"
    using assms by (metis add.commute dividend_less_div_times mult.commute)
  then show ?thesis by arith
qed

lemma starts_index:
  fixes st :: nat
  assumes "0 < st" "i < L"
  shows "i div st < (L + st - 1) div st"
proof -
  have "(i div st) * st < L"
    using assms(2) div_times_less_eq_dividend[of i st] by linarith
  moreover have "L \<le> ((L + st - 1) div st) * st" by (rule starts_cover[OF assms(1)])
  ultimately have "(i div st) * st < ((L + st - 1) div st) * st" by linarith
  then show ?thesis by (rule mult_less_cancel2[THEN iffD1, THEN conjunct2])
qed

lemma dict_set_fresh: "k \<notin> set (keys d) \<Longrightarrow> dict_set d k v = d @ [(k, v)]"
  by (induction d) (auto simp: keys_def)

lemma chunk_text_zero_step: "chunk_text text sz sz = Inl ValueError"
  by (simp add: chunk_text_def py_range_def)

lemma chunk_text_neg_step: "sz < overlap \<Longrightarrow> chunk_text text sz overlap = Inr []"
  by (simp add: chunk_text_def py_range_def range_down.simps[of 0])

lemma chunk_text_total: "sz \<noteq> overlap \<Longrightarrow> \<exists>chunks. chunk_text text sz overlap = Inr chunks"
  by (simp add: chunk_text_def py_range_def)

lemma chunk_items_map:
  assumes "sz \<noteq> overlap" "distinct (keys sr)" "set (keys sr) \<inter> set (keys acc) = {}"
  shows "chunk_items sr sz overlap acc =
           Inr (acc @ map (\<lambda>(url, text). (url, projr (chunk_text text sz overlap))) sr)"
  using assms(2,3)
proof (induction sr arbitrary: acc)
  case Nil
  then show ?case by simp
next
  case (Cons p sr)
  obtain url doc where p: "p = (url, doc)" by (cases p)
  obtain chunks where c: "chunk_text doc sz overlap = Inr chunks"
    using chunk_text_total[OF assms(1)] by blast
  have fresh: "url \<notin> set (keys acc)"
    using Cons.prems(2) p by (auto simp: keys_def)
  have d: "distinct (keys sr)" using Cons.prems(1) by (simp add: keys_def)
  have "set (keys sr) \<inter> set (keys (acc @ [(url, chunks)])) = {}"
    using Cons.prems p by (auto simp: keys_def)
  from Cons.IH[OF d this] show ?case
    by (simp add: p c dict_set_fresh[OF fresh])
qed

lemma chunk_results_map:
  assumes "sz \<noteq> overlap" "distinct (keys sr)"
  shows "chunk_results sr sz overlap =
           Inr (map (\<lambda>(url, text). (url, projr (chunk_text text sz overlap))) sr)"
  using chunk_items_map[OF assms, of "[]"] by (simp add: chunk_results_def keys_def)

lemma chunk_items_total:
  "sz \<noteq> overlap \<Longrightarrow> \<exists>cr. chunk_items sr sz overlap acc = Inr cr"
proof (induction sr arbitrary: acc)
  case Nil
  then show ?case by simp
next
  case (Cons p sr)
  obtain url doc where p: "p = (url, doc)" by (cases p)
  obtain chunks where c: "chunk_text doc sz overlap = Inr chunks"
    using chunk_text_total[OF Cons.prems] by blast
  show ?case using Cons.IH[OF Cons.prems] by (simp add: p c)
qed

lemma chunk_items_zero_step:
  "sr \<noteq> [] \<Longrightarrow> chunk_items sr sz sz acc = Inl ValueError"
  by (cases sr) (auto simp: chunk_text_zero_step)

lemma map_of_mapped:
  assumes "distinct (keys sr)" "(url, text) \<in> set sr"
  shows "map_of (map (\<lambda>(u, t). (u, g t)) sr) url = Some (g text)"
proof -
  have "distinct (map fst (map (\<lambda>(u, t). (u, g t)) sr))"
    using assms(1) by (simp add: keys_def o_def case_prod_unfold)
  moreover have "(url, g text) \<in> set (map (\<lambda>(u, t). (u, g t)) sr)"
    using assms(2) by force
  ultimately show ?thesis by (rule map_of_is_SomeI)
qed

lemma windows_props:
  fixes doc :: "'a list" and S st :: nat
  assumes st: "0 < st" "st \<le> S"
  defines "chunks \<equiv> map (\<lambda>k. take S (drop (k * st) doc)) [0..<(length doc + st - 1) div st]"
  shows "(\<forall>k < length chunks. k * st < length doc
            \<and> chunks ! k = take S (drop (k * st) doc) \<and> chunks ! k \<noteq> [])"
    and "length doc \<le> length chunks * st"
    and "(\<forall>i < length doc. \<exists>k < length chunks.
            k * st \<le> i \<and> i < k * st + length (chunks ! k)
            \<and> chunks ! k ! (i - k * st) = doc ! i)"
    and "doc = [] \<longrightarrow> chunks = []"
proof -
  let ?n = "(length doc + st - 1) div st"
  have len: "length chunks = ?n" by (simp add: chunks_def)
  have nth: "chunks ! k = take S (drop (k * st) doc)" if "k < ?n" for k
    using that by (simp add: chunks_def)
  show "\<forall>k < length chunks. k * st < length doc
            \<and> chunks ! k = take S (drop (k * st) doc) \<and> chunks ! k \<noteq> []"
  proof (intro allI impI)
    fix k assume k: "k < length chunks"
    then have kn: "k < ?n" by (simp add: len)
    have b: "k * st < length doc" by (rule starts_below[OF st(1) kn])
    have "0 < S" using st by simp
    then have "take S (drop (k * st) doc) \<noteq> []" using b by simp
    then show "k * st < length doc \<and> chunks ! k = take S (drop (k * st) doc) \<and> chunks ! k \<noteq> []"
      using b nth[OF kn] by simp
  qed
  show "length doc \<le> length chunks * st"
    unfolding len by (rule starts_cover[OF st(1)])
  show "\<forall>i < length doc. \<exists>k < length chunks.
            k * st \<le> i \<and> i < k * st + length (chunks ! k)
            \<and> chunks ! k ! (i - k * st) = doc ! i"
  proof (intro allI impI)
    fix i assume i: "i < length doc"
    let ?k = "i div st"
    have kn: "?k < ?n" by (rule starts_index[OF st(1) i])
    have lo: "?k * st \<le> i" by simp
    have "i < ?k * st + st" using st(1) by (metis add.commute dividend_less_div_times mult.commute)
    then have off: "i - ?k * st < S" using st by linarith
    have off2: "i - ?k * st < length doc - ?k * st" using i lo by linarith
    have l: "length (chunks ! ?k) = min (length doc - ?k * st) S"
      by (simp add: nth[OF kn])
    have hi: "i < ?k * st + length (chunks ! ?k)"
      unfolding l using off off2 lo by linarith
    have "chunks ! ?k ! (i - ?k * st) = drop (?k * st) doc ! (i - ?k * st)"
      unfolding nth[OF kn] using off by simp
    also have "\<dots> = doc ! (?k * st + (i - ?k * st))"
      using lo i by (intro nth_drop) linarith
    also have "?k * st + (i - ?k * st) = i"
      using lo by linarith
    finally show "\<exists>k < length chunks. k * st \<le> i \<and> i < k * st + length (chunks ! k)
            \<and> chunks ! k ! (i - k * st) = doc ! i"
      using kn lo hi len by metis
  qed
  show "doc = [] \<longrightarrow> chunks = []"
    using st(1) by (simp add: chunks_def)
qed

text \<open>
  Claim C1. For a document \<open>doc\<close> of a mapping and parameters with
  \<open>0 \<le> overlap < size\<close>, \<^verbatim>\<open>chunk_results\<close> returns for its source the
  fragments that start at the offsets \<open>0, stride, 2 * stride, ...\<close> with
  \<open>stride = size - overlap\<close>: every start offset is below the length of the document
  and the next multiple of the stride is not; fragment \<open>k\<close> is the window of at most
  \<open>size\<close> characters at offset \<open>k * stride\<close> and is never empty; every position
  of the document lies in some fragment, which holds the document's character there; and
  an empty document has no fragment.
\<close>

theorem chunk_results_stride_coverage:
  assumes "0 \<le> overlap" "overlap < sz" "distinct (keys sr)" "(url, doc) \<in> set sr"
  shows "\<exists>cr chunks. chunk_results sr sz overlap = Inr cr \<and> map_of cr url = Some chunks
     \<and> (\<forall>k < length chunks. k * nat (sz - overlap) < length doc
            \<and> chunks ! k = take (nat sz) (drop (k * nat (sz - overlap)) doc)
            \<and> chunks ! k \<noteq> [])
     \<and> length doc \<le> length chunks * nat (sz - overlap)
     \<and> (\<forall>i < length doc. \<exists>k < length chunks.
            k * nat (sz - overlap) \<le> i \<and> i < k * nat (sz - overlap) + length (chunks ! k)
            \<and> chunks ! k ! (i - k * nat (sz - overlap)) = doc ! i)
     \<and> (doc = [] \<longrightarrow> chunks = [])"
proof -
  let ?st = "nat (sz - overlap)"
  let ?chunks = "map (\<lambda>k. take (nat sz) (drop (k * ?st) doc)) [0..<(length doc + ?st - 1) div ?st]"
  have ne: "sz \<noteq> overlap" using assms(2) by simp
  have st: "0 < ?st" "?st \<le> nat sz" using assms(1,2) by simp_all
  have c: "projr (chunk_text doc sz overlap) = ?chunks"
    by (simp add: chunk_text_valid[OF assms(1,2)])
  have r: "chunk_results sr sz overlap =
        Inr (map (\<lambda>(u, t). (u, projr (chunk_text t sz overlap))) sr)"
    by (rule chunk_results_map[OF ne assms(3)])
  have m: "map_of (map (\<lambda>(u, t). (u, projr (chunk_text t sz overlap))) sr) url = Some ?chunks"
    using map_of_mapped[OF assms(3,4), of "\<lambda>t. projr (chunk_text t sz overlap)"] c by simp
  show ?thesis
    using r m windows_props[OF st, of doc] by blast
qed

text \<open>The coverage theorem at the document \<^verbatim>\<open>"ABCDEFGHIJ"\<close>, size 4, overlap 1.\<close>

theorem chunk_results_stride_coverage_witness:
  "\<exists>cr chunks. chunk_results [(''u'', ''ABCDEFGHIJ'')] 4 1 = Inr cr
      \<and> map_of cr ''u'' = Some chunks
      \<and> length ''ABCDEFGHIJ'' \<le> length chunks * 3
      \<and> (\<exists>k < length chunks. k * 3 \<le> 9 \<and> chunks ! k ! (9 - k * 3) = ''ABCDEFGHIJ'' ! 9)"
proof -
  have h: "(0::int) \<le> 1" "(1::int) < 4" "distinct (keys [(''u'', ''ABCDEFGHIJ'')])"
    "(''u'', ''ABCDEFGHIJ'') \<in> set [(''u'', ''ABCDEFGHIJ'')]"
    by (simp_all add: keys_def)
  have n: "nat (4 - 1) = 3" by simp
  have l: "9 < length ''ABCDEFGHIJ''" by simp
  from chunk_results_stride_coverage[OF h] l show ?thesis
    unfolding n by blast
qed

lemma chunk_text_abcdefghij:
  "chunk_text ''ABCDEFGHIJ'' 4 1 = Inr [''ABCD'', ''DEFG'', ''GHIJ'', ''J'']"
  by code_simp

lemma chunk_text_abcdefghijk:
  "chunk_text ''ABCDEFGHIJK'' 4 1 = Inr [''ABCD'', ''DEFG'', ''GHIJ'', ''JK'']"
  by code_simp

text \<open>
  The scenario of claim C2 as it is written does not hold: the result for
  \<^verbatim>\<open>"ABCDEFGHIJ"\<close> is not the three fragments, and the fourth fragment of
  \<^verbatim>\<open>"ABCDEFGHIJK"\<close> is not \<^verbatim>\<open>"K"\<close>.
\<close>

theorem scenario_counterexample:
  "chunk_results [(''u'', ''ABCDEFGHIJ'')] 4 1 \<noteq> Inr [(''u'', [''ABCD'', ''DEFG'', ''GHIJ''])]
   \<and> chunk_results [(''u'', ''ABCDEFGHIJK'')] 4 1
        \<noteq> Inr [(''u'', [''ABCD'', ''DEFG'', ''GHIJ'', ''K''])]"
  by (simp add: chunk_results_def chunk_text_abcdefghij chunk_text_abcdefghijk)

text \<open>
  Claim C2, as the code decides it. With size 4 and overlap 1 the start offsets are
  \<open>0, 3, 6, 9\<close>, and offset 9 is below both lengths 10 and 11. So
  \<^verbatim>\<open>"ABCDEFGHIJ"\<close> gives four fragments, the last one \<^verbatim>\<open>"J"\<close> at index 3, and
  \<^verbatim>\<open>"ABCDEFGHIJK"\<close> gives four fragments, the last one \<^verbatim>\<open>"JK"\<close> at index 3.
  The indices are those \<^verbatim>\<open>enumerate\<close> gives the chunk list.
\<close>

theorem scenario_four_fragments:
  "chunk_results [(url, ''ABCDEFGHIJ'')] 4 1 = Inr [(url, [''ABCD'', ''DEFG'', ''GHIJ'', ''J''])]
   \<and> enumerate_from0 [''ABCD'', ''DEFG'', ''GHIJ'', ''J'']
        = [(0, ''ABCD''), (1, ''DEFG''), (2, ''GHIJ''), (3, ''J'')]
   \<and> chunk_results [(url, ''ABCDEFGHIJK'')] 4 1
        = Inr [(url, [''ABCD'', ''DEFG'', ''GHIJ'', ''JK''])]
   \<and> enumerate_from0 [''ABCD'', ''DEFG'', ''GHIJ'', ''JK'']
        = [(0, ''ABCD''), (1, ''DEFG''), (2, ''GHIJ''), (3, ''JK'')]"
  by (simp add: chunk_results_def chunk_text_abcdefghij chunk_text_abcdefghijk
      enumerate_from0_def upt_rec)

lemma count_one:
  fixes st :: nat
  assumes "0 < st"
  shows "((L + st - 1) div st = 1) = (0 < L \<and> L \<le> st)"
proof
  assume n: "(L + st - 1) div st = 1"
  have "0 * st < L" by (rule starts_below[OF assms]) (simp only: n zero_less_one)
  moreover have "L \<le> 1 * st" using starts_cover[OF assms, of L] unfolding n .
  ultimately show "0 < L \<and> L \<le> st" by simp
next
  assume a: "0 < L \<and> L \<le> st"
  then have "0 div st < (L + st - 1) div st" by (intro starts_index[OF assms]) simp
  then have lo: "1 \<le> (L + st - 1) div st" by simp
  have "\<not> 1 < (L + st - 1) div st"
  proof
    assume "1 < (L + st - 1) div st"
    then have "1 * st < L" by (rule starts_below[OF assms])
    then show False using a by simp
  qed
  then show "(L + st - 1) div st = 1" using lo by linarith
qed

text \<open>
  Claim C3, as the code decides it. For valid parameters the chunk list of a document is
  the one-element list holding the whole document exactly when the document is not empty
  and no longer than the stride \<open>size - overlap\<close>. An empty document has no fragment,
  and a document longer than the stride (even if shorter than \<open>size\<close>) has more than one.
\<close>

theorem short_document_single_fragment:
  assumes "0 \<le> overlap" "overlap < sz" "distinct (keys sr)" "(url, doc) \<in> set sr"
  shows "\<exists>cr chunks. chunk_results sr sz overlap = Inr cr \<and> map_of cr url = Some chunks
     \<and> (chunks = [doc] \<longleftrightarrow> doc \<noteq> [] \<and> int (length doc) \<le> sz - overlap)"
proof -
  let ?st = "nat (sz - overlap)"
  let ?n = "(length doc + ?st - 1) div ?st"
  define chunks where "chunks = map (\<lambda>k. take (nat sz) (drop (k * ?st) doc)) [0..<?n]"
  define cr where "cr = map (\<lambda>(u, t). (u, projr (chunk_text t sz overlap))) sr"
  have ne: "sz \<noteq> overlap" using assms(2) by simp
  have st: "0 < ?st" "?st \<le> nat sz" using assms(1,2) by simp_all
  have c: "projr (chunk_text doc sz overlap) = chunks"
    by (simp add: chunk_text_valid[OF assms(1,2)] chunks_def)
  have r: "chunk_results sr sz overlap = Inr cr"
    unfolding cr_def by (rule chunk_results_map[OF ne assms(3)])
  have m: "map_of cr url = Some chunks"
    unfolding cr_def
    using map_of_mapped[OF assms(3,4), of "\<lambda>t. projr (chunk_text t sz overlap)"] c by simp
  have one: "(?n = 1) = (0 < length doc \<and> length doc \<le> ?st)"
    by (rule count_one[OF st(1)])
  have "chunks = [doc] \<longleftrightarrow> doc \<noteq> [] \<and> int (length doc) \<le> sz - overlap"
  proof
    assume "chunks = [doc]"
    then have "length chunks = 1" by simp
    then have "?n = 1" by (simp add: chunks_def)
    then have "0 < length doc \<and> length doc \<le> ?st"
      using one by simp
    then show "doc \<noteq> [] \<and> int (length doc) \<le> sz - overlap"
      using assms(2) by auto
  next
    assume a: "doc \<noteq> [] \<and> int (length doc) \<le> sz - overlap"
    then have "0 < length doc \<and> length doc \<le> ?st" by auto
    then have n1: "?n = 1" and "length doc \<le> nat sz"
      using one st(2) by simp_all
    then show "chunks = [doc]" by (simp del: One_nat_def add: upt_rec chunks_def)
  qed
  with r m show ?thesis by blast
qed

text \<open>The single-fragment theorem at the document \<^verbatim>\<open>"abc"\<close>, size 4, overlap 1.\<close>

theorem short_document_single_fragment_witness:
  "\<exists>cr. chunk_results [(''u'', ''abc'')] 4 1 = Inr cr \<and> map_of cr ''u'' = Some [''abc'']"
proof -
  have h: "(0::int) \<le> 1" "(1::int) < 4" "distinct (keys [(''u'', ''abc'')])"
    "(''u'', ''abc'') \<in> set [(''u'', ''abc'')]"
    by (simp_all add: keys_def)
  have "''abc'' \<noteq> [] \<and> int (length ''abc'') \<le> 4 - 1" by simp
  with short_document_single_fragment[OF h] show ?thesis by metis
qed

text \<open>
  Claim C3 as it is written fails for two documents shorter than \<open>size = 4\<close>: the empty
  document gets no fragment, and \<^verbatim>\<open>"abc"\<close> with overlap 3 gets three fragments.
\<close>

theorem short_document_counterexample:
  "int (length ([]::string)) < 4 \<and> chunk_results [(''u'', ([]::string))] 4 1 = Inr [(''u'', [])]
   \<and> int (length ''abc'') < 4 \<and> (0::int) \<le> 3 \<and> (3::int) < 4
   \<and> chunk_results [(''u'', ''abc'')] 4 3 = Inr [(''u'', [''abc'', ''bc'', ''c''])]"
proof -
  have "chunk_text ([]::string) 4 1 = Inr []" by code_simp
  moreover have "chunk_text ''abc'' 4 3 = Inr [''abc'', ''bc'', ''c'']" by code_simp
  ultimately show ?thesis by (simp add: chunk_results_def)
qed

lemma chunk_results_error_iff:
  "chunk_results sr sz overlap = Inl e \<longleftrightarrow> e = ValueError \<and> sz = overlap \<and> sr \<noteq> []"
proof (cases "sz = overlap")
  case True
  show ?thesis
  proof (cases sr)
    case Nil
    then show ?thesis by (simp add: chunk_results_def)
  next
    case (Cons p ps)
    then have "chunk_results sr sz overlap = Inl ValueError"
      using True chunk_items_zero_step[of sr overlap "[]"] by (simp add: chunk_results_def)
    then show ?thesis using True Cons by auto
  qed
next
  case False
  then obtain cr where "chunk_results sr sz overlap = Inr cr"
    using chunk_items_total[of sz overlap sr "[]"] by (auto simp: chunk_results_def)
  then show ?thesis using False by simp
qed

lemma chunk_results_neg_step:
  assumes "sz < overlap" "distinct (keys sr)"
  shows "chunk_results sr sz overlap = Inr (map (\<lambda>(u, t). (u, [])) sr)"
proof -
  have "sz \<noteq> overlap" using assms(1) by simp
  from chunk_results_map[OF this assms(2)] show ?thesis
    by (simp add: chunk_text_neg_step[OF assms(1)])
qed

text \<open>
  Claim C4, as the code decides it. \<^verbatim>\<open>chunk_results\<close> does not check its
  parameters. The only exception it raises is the \<^verbatim>\<open>ValueError\<close> of
  \<^verbatim>\<open>range\<close> for a zero step, and it raises it inside the loop over the documents:
  exactly when \<open>size = overlap\<close> and the mapping has a document. For every other
  pair of parameters it returns a mapping; when \<open>overlap > size\<close> every document
  gets an empty chunk list.
\<close>

theorem chunk_results_no_validation:
  "(chunk_results sr sz overlap = Inl e \<longleftrightarrow> e = ValueError \<and> sz = overlap \<and> sr \<noteq> [])
   \<and> (sz < overlap \<and> distinct (keys sr) \<longrightarrow>
        chunk_results sr sz overlap = Inr (map (\<lambda>(u, t). (u, [])) sr))"
proof (intro conjI impI)
  show "chunk_results sr sz overlap = Inl e \<longleftrightarrow> e = ValueError \<and> sz = overlap \<and> sr \<noteq> []"
    by (rule chunk_results_error_iff)
next
  assume "sz < overlap \<and> distinct (keys sr)"
  then show "chunk_results sr sz overlap = Inr (map (\<lambda>(u, t). (u, [])) sr)"
    using chunk_results_neg_step by blast
qed

text \<open>
  The theorem above at size 4 and overlap 5: no error, and an empty chunk list.
\<close>

theorem chunk_results_no_validation_witness:
  "(4::int) < 5 \<and> distinct (keys [(''u'', ''abc'')])
   \<and> chunk_results [(''u'', ''abc'')] 4 5 = Inr [(''u'', [])]
   \<and> chunk_results [(''u'', ''abc'')] 4 5 \<noteq> Inl ValueError"
  using chunk_results_no_validation[of "[(''u'', ''abc'')]" 4 5 ValueError]
  by (simp add: keys_def)

text \<open>
  Claim C4 as it is written fails: with \<open>overlap \<ge> size\<close> (4 and 5), with
  \<open>size = 0\<close> (and overlap \<open>-1\<close>), and with \<open>size = overlap\<close> on an empty
  mapping, \<^verbatim>\<open>chunk_results\<close> returns a mapping and reports no error.
\<close>

theorem fail_fast_counterexample:
  "\<not> ((5::int) < 4) \<and> chunk_results [(''u'', ''abc'')] 4 5 = Inr [(''u'', [])]
   \<and> \<not> ((0::int) < 0) \<and> chunk_results [(''u'', ''abc'')] 0 (- 1) = Inr [(''u'', [[], [], []])]
   \<and> \<not> ((4::int) < 4) \<and> chunk_results ([] :: (string \<times> string) list) 4 4 = Inr []"
proof -
  have "chunk_text ''abc'' 4 5 = Inr []" by code_simp
  moreover have "chunk_text ''abc'' 0 (- 1) = Inr [[], [], []]" by code_simp
  ultimately show ?thesis by (simp add: chunk_results_def)
qed

text \<open>
  Claim C9, as the code decides it. For \<open>size \<noteq> overlap\<close> and a mapping (an
  association list with distinct keys), \<^verbatim>\<open>chunk_results\<close> returns a mapping with
  the keys of its input in the same order; the chunk list of each source is the result
  of the inner loop on that source's text alone; and any other mapping that holds the
  same text for a source gets the same chunk list for it.
\<close>

theorem chunk_results_keys_local:
  assumes "sz \<noteq> overlap" "distinct (keys sr)"
  shows "\<exists>cr. chunk_results sr sz overlap = Inr cr \<and> keys cr = keys sr
     \<and> (\<forall>url doc. (url, doc) \<in> set sr \<longrightarrow>
           (\<exists>chunks. chunk_text doc sz overlap = Inr chunks \<and> map_of cr url = Some chunks))
     \<and> (\<forall>sr' url doc. distinct (keys sr') \<and> (url, doc) \<in> set sr \<and> (url, doc) \<in> set sr' \<longrightarrow>
           (\<exists>cr'. chunk_results sr' sz overlap = Inr cr' \<and> map_of cr' url = map_of cr url))"
proof -
  let ?g = "\<lambda>t. projr (chunk_text t sz overlap)"
  define cr where "cr = map (\<lambda>(u, t). (u, ?g t)) sr"
  have r: "chunk_results sr sz overlap = Inr cr"
    unfolding cr_def by (rule chunk_results_map[OF assms])
  have k: "keys cr = keys sr"
    by (simp add: cr_def keys_def o_def case_prod_unfold)
  have g: "chunk_text doc sz overlap = Inr (?g doc)" for doc :: "'b list"
    using chunk_text_total[OF assms(1), of doc] by auto
  have m: "map_of cr url = Some (?g doc)" if "(url, doc) \<in> set sr" for url doc
    unfolding cr_def by (rule map_of_mapped[OF assms(2) that])
  have l: "\<exists>chunks. chunk_text doc sz overlap = Inr chunks \<and> map_of cr url = Some chunks"
    if "(url, doc) \<in> set sr" for url doc
    using g[of doc] m[OF that] by blast
  have o: "\<exists>cr'. chunk_results sr' sz overlap = Inr cr' \<and> map_of cr' url = map_of cr url"
    if "distinct (keys sr') \<and> (url, doc) \<in> set sr \<and> (url, doc) \<in> set sr'" for sr' url doc
  proof -
    have "chunk_results sr' sz overlap = Inr (map (\<lambda>(u, t). (u, ?g t)) sr')"
      using that chunk_results_map[OF assms(1)] by blast
    moreover have "map_of (map (\<lambda>(u, t). (u, ?g t)) sr') url = Some (?g doc)"
    proof (rule map_of_mapped)
      show "distinct (keys sr')" using that by simp
      show "(url, doc) \<in> set sr'" using that by simp
    qed
    ultimately show ?thesis using m that by auto
  qed
  show ?thesis using r k l o by blast
qed

text \<open>
  The theorem above at a mapping of two sources and at the mapping of the second alone.
\<close>

theorem chunk_results_keys_local_witness:
  "\<exists>cr. chunk_results [(''a'', ''xyz''), (''b'', ''pq'')] 2 0 = Inr cr
      \<and> keys cr = [''a'', ''b'']
      \<and> (\<exists>cr'. chunk_results [(''b'', ''pq'')] 2 0 = Inr cr' \<and> map_of cr' ''b'' = map_of cr ''b'')"
proof -
  have h: "(2::int) \<noteq> 0" "distinct (keys [(''a'', ''xyz''), (''b'', ''pq'')])"
    by (simp_all add: keys_def)
  have d: "distinct (keys [(''b'', ''pq'')]) \<and> (''b'', ''pq'') \<in> set [(''a'', ''xyz''), (''b'', ''pq'')]
       \<and> (''b'', ''pq'') \<in> set [(''b'', ''pq'')]"
    by (simp add: keys_def)
  have k: "keys [(''a'', ''xyz''), (''b'', ''pq'')] = [''a'', ''b'']" by (simp add: keys_def)
  from chunk_results_keys_local[OF h] d show ?thesis unfolding k by metis
qed

text \<open>
  Claim C9 as it is written fails for \<open>size = overlap\<close>: on a mapping with a document
  \<^verbatim>\<open>chunk_results\<close> raises \<^verbatim>\<open>ValueError\<close> and returns no mapping.
\<close>

theorem chunk_results_raises_counterexample:
  "distinct (keys [(''u'', ''abc'')]) \<and> chunk_results [(''u'', ''abc'')] 4 4 = Inl ValueError"
  by (simp add: keys_def chunk_results_def chunk_text_zero_step)

section \<open>Properties of scrape\_urls\<close>

lemma keys_dict_set: "set (keys (dict_set d k v)) = insert k (set (keys d))"
proof (induction d)
  case Nil
  then show ?case by (simp add: keys_def)
next
  case (Cons p d)
  obtain k' v' where p: "p = (k', v')" by (cases p)
  have "set (map fst (dict_set d k v)) = insert k (set (map fst d))"
    using Cons.IH by (simp add: keys_def)
  then show ?case by (auto simp: p keys_def)
qed

lemma distinct_dict_set: "distinct (keys d) \<Longrightarrow> distinct (keys (dict_set d k v))"
proof (induction d)
  case Nil
  then show ?case by (simp add: keys_def)
next
  case (Cons p d)
  obtain k' v' where p: "p = (k', v')" by (cases p)
  have d: "distinct (keys d)" and n: "k' \<notin> set (keys d)"
    using Cons.prems by (simp_all add: keys_def p)
  show ?case
  proof (cases "k' = k")
    case True
    then show ?thesis using Cons.prems by (simp add: p keys_def)
  next
    case False
    have "k' \<notin> set (keys (dict_set d k v))"
      using n False by (simp add: keys_dict_set)
    moreover have "distinct (keys (dict_set d k v))" by (rule Cons.IH[OF d])
    ultimately show ?thesis using False by (simp add: p keys_def)
  qed
qed

lemma in_set_enumerate_from0:
  "(i, x) \<in> set (enumerate_from0 xs) \<longleftrightarrow> i < length xs \<and> xs ! i = x"
proof
  assume "(i, x) \<in> set (enumerate_from0 xs)"
  then obtain n where "[0..<length xs] ! n = i" "xs ! n = x" "n < length xs"
    by (auto simp: enumerate_from0_def in_set_zip)
  then show "i < length xs \<and> xs ! i = x" by simp
next
  assume a: "i < length xs \<and> xs ! i = x"
  then have "[0..<length xs] ! i = i \<and> xs ! i = x \<and> i < length [0..<length xs] \<and> i < length xs"
    by simp
  then show "(i, x) \<in> set (enumerate_from0 xs)"
    unfolding enumerate_from0_def in_set_zip by (intro exI[of _ i]) simp
qed

lemma scrape_loop_log:
  "snd (scrape_loop sg ius (res, log)) =
     log @ map (\<lambda>(i, url). case sg i url of
                  Raised e \<Rightarrow> Error (''scraping error '' @ url @ '': '' @ e)
                | NoBody \<Rightarrow> Warning (''No body tag found in the response for url: '' @ url)
                | Body b \<Rightarrow> Debug (''Scraped '' @ url @ '': ''
                      @ py_strip (py_join '' '' (py_split b)) @ ''...'')) ius"
proof (induction ius arbitrary: res log)
  case Nil
  then show ?case by simp
next
  case (Cons p ius)
  obtain i url where p: "p = (i, url)" by (cases p)
  show ?case
    by (cases "sg i url") (simp_all add: p Cons.IH Let_def)
qed

lemma scrape_loop_keys:
  "set (keys (fst (scrape_loop sg ius (res, log)))) =
     set (keys res) \<union> {url. \<exists>i b. (i, url) \<in> set ius \<and> sg i url = Body b}"
proof (induction ius arbitrary: res log)
  case Nil
  then show ?case by simp
next
  case (Cons p ius)
  obtain i url where p: "p = (i, url)" by (cases p)
  show ?case
  proof (cases "sg i url")
    case (Raised e)
    then show ?thesis by (auto simp: p Cons.IH)
  next
    case NoBody
    then show ?thesis by (auto simp: p Cons.IH)
  next
    case (Body b)
    then show ?thesis by (auto simp: p Cons.IH Let_def keys_dict_set)
  qed
qed

lemma scrape_loop_distinct:
  "distinct (keys res) \<Longrightarrow> distinct (keys (fst (scrape_loop sg ius (res, log))))"
proof (induction ius arbitrary: res log)
  case Nil
  then show ?case by simp
next
  case (Cons p ius)
  obtain i url where p: "p = (i, url)" by (cases p)
  show ?case
    by (cases "sg i url") (simp_all add: p Cons.IH Cons.prems Let_def distinct_dict_set)
qed

lemma scrape_loop_skip:
  "fst (scrape_loop sg ius (res, log)) =
   fst (scrape_loop sg (filter (\<lambda>(i, url). case sg i url of Body b \<Rightarrow> True | _ \<Rightarrow> False) ius)
          (res, log'))"
proof (induction ius arbitrary: res log log')
  case Nil
  then show ?case by simp
next
  case (Cons p ius)
  obtain i url where p: "p = (i, url)" by (cases p)
  show ?case
  proof (cases "sg i url")
    case (Raised e)
    then show ?thesis using Cons.IH by (simp add: p)
  next
    case NoBody
    then show ?thesis using Cons.IH by (simp add: p)
  next
    case (Body b)
    then show ?thesis using Cons.IH by (simp add: p Let_def)
  qed
qed

lemma nth_enumerate_from0:
  "i < length xs \<Longrightarrow> enumerate_from0 xs ! i = (i, xs ! i)"
  by (simp add: enumerate_from0_def)

lemma length_enumerate_from0: "length (enumerate_from0 xs) = length xs"
  by (simp add: enumerate_from0_def)

text \<open>
  Claim C6, as the code decides it. \<^verbatim>\<open>scrape_urls\<close> always returns (its result has
  no exception). Every URL of the list gets one logger call, at its position: an error
  with the exception's message when the request or the parser raised, a warning when the
  page has no body. A URL is a key of the returned mapping exactly when one of its
  requests gave a body; the keys are distinct; and the mapping is the one the loop builds
  from the successful requests alone, so a failure neither stops the loop nor changes
  what the other requests contribute. When no URL is listed twice, every URL whose
  request failed is absent from the mapping.
\<close>

theorem scrape_urls_skips_failures:
  "length (snd (scrape_urls sg urls)) = length urls
   \<and> (\<forall>i < length urls.
        (\<forall>e. sg i (urls ! i) = Raised e \<longrightarrow>
           snd (scrape_urls sg urls) ! i = Error (''scraping error '' @ urls ! i @ '': '' @ e))
      \<and> (sg i (urls ! i) = NoBody \<longrightarrow>
           snd (scrape_urls sg urls) ! i
             = Warning (''No body tag found in the response for url: '' @ urls ! i)))
   \<and> (\<forall>url. url \<in> set (keys (fst (scrape_urls sg urls)))
          \<longleftrightarrow> (\<exists>i < length urls. urls ! i = url \<and> (\<exists>b. sg i url = Body b)))
   \<and> distinct (keys (fst (scrape_urls sg urls)))
   \<and> fst (scrape_urls sg urls)
       = fst (scrape_loop sg
               (filter (\<lambda>(i, url). case sg i url of Body b \<Rightarrow> True | _ \<Rightarrow> False)
                  (enumerate_from0 urls)) ([], []))
   \<and> (distinct urls \<longrightarrow>
        (\<forall>i < length urls. (\<forall>b. sg i (urls ! i) \<noteq> Body b) \<longrightarrow>
            urls ! i \<notin> set (keys (fst (scrape_urls sg urls)))))"
proof (intro conjI allI impI)
  let ?entry = "\<lambda>(i, url). case sg i url of
                  Raised e \<Rightarrow> Error (''scraping error '' @ url @ '': '' @ e)
                | NoBody \<Rightarrow> Warning (''No body tag found in the response for url: '' @ url)
                | Body b \<Rightarrow> Debug (''Scraped '' @ url @ '': ''
                      @ py_strip (py_join '' '' (py_split b)) @ ''...'')"
  have log: "snd (scrape_urls sg urls) = map ?entry (enumerate_from0 urls)"
    unfolding scrape_urls_def scrape_loop_log by simp
  show "length (snd (scrape_urls sg urls)) = length urls"
    by (simp add: log length_enumerate_from0)
  have nth: "snd (scrape_urls sg urls) ! i = ?entry (i, urls ! i)" if "i < length urls" for i
    using that by (simp add: log length_enumerate_from0 nth_enumerate_from0)
  show "snd (scrape_urls sg urls) ! i = Error (''scraping error '' @ urls ! i @ '': '' @ e)"
    if "i < length urls" "sg i (urls ! i) = Raised e" for i e
    using nth[OF that(1)] that(2) by simp
  show "snd (scrape_urls sg urls) ! i
          = Warning (''No body tag found in the response for url: '' @ urls ! i)"
    if "i < length urls" "sg i (urls ! i) = NoBody" for i
    using nth[OF that(1)] that(2) by simp
  show k: "url \<in> set (keys (fst (scrape_urls sg urls)))
          \<longleftrightarrow> (\<exists>i < length urls. urls ! i = url \<and> (\<exists>b. sg i url = Body b))" for url
    unfolding scrape_urls_def scrape_loop_keys
    by (auto simp: keys_def in_set_enumerate_from0)
  show "distinct (keys (fst (scrape_urls sg urls)))"
    unfolding scrape_urls_def by (rule scrape_loop_distinct) (simp add: keys_def)
  show "fst (scrape_urls sg urls)
       = fst (scrape_loop sg
               (filter (\<lambda>(i, url). case sg i url of Body b \<Rightarrow> True | _ \<Rightarrow> False)
                  (enumerate_from0 urls)) ([], []))"
    unfolding scrape_urls_def by (rule scrape_loop_skip)
  show "urls ! i \<notin> set (keys (fst (scrape_urls sg urls)))"
    if d: "distinct urls" and i: "i < length urls" and f: "\<forall>b. sg i (urls ! i) \<noteq> Body b" for i
  proof
    assume "urls ! i \<in> set (keys (fst (scrape_urls sg urls)))"
    then obtain j b where j: "j < length urls" "urls ! j = urls ! i" "sg j (urls ! i) = Body b"
      unfolding k by blast
    then have "j = i" using d i by (simp add: nth_eq_iff_index_eq)
    then show False using j(3) f by simp
  qed
qed

text \<open>
  The theorem above at two different URLs, the first of which raises: one logger call
  each, the error logged for the first, the first absent from the mapping and the second
  present.
\<close>

theorem scrape_urls_skips_failures_witness:
  "length (snd (scrape_urls (\<lambda>i u. if u = ''a'' then Raised ''boom'' else Body ''x'') [''a'', ''c''])) = 2
   \<and> snd (scrape_urls (\<lambda>i u. if u = ''a'' then Raised ''boom'' else Body ''x'') [''a'', ''c'']) ! 0
        = Error ''scraping error a: boom''
   \<and> ''a'' \<notin> set (keys (fst (scrape_urls (\<lambda>i u. if u = ''a'' then Raised ''boom'' else Body ''x'')
                                  [''a'', ''c''])))
   \<and> ''c'' \<in> set (keys (fst (scrape_urls (\<lambda>i u. if u = ''a'' then Raised ''boom'' else Body ''x'')
                                  [''a'', ''c''])))"
proof -
  let ?sg = "\<lambda>(i::nat) u. if u = ''a'' then Raised ''boom'' else Body ''x''"
  let ?urls = "[''a'', ''c'']"
  note t = scrape_urls_skips_failures[of ?sg ?urls]
  have l: "length (snd (scrape_urls ?sg ?urls)) = 2"
    using t by simp
  have "(0::nat) < length ?urls" "?sg 0 (?urls ! 0) = Raised ''boom''" by simp_all
  with t have e: "snd (scrape_urls ?sg ?urls) ! 0 = Error (''scraping error '' @ ?urls ! 0 @ '': '' @ ''boom'')"
    by blast
  have "distinct ?urls" "(0::nat) < length ?urls" "\<forall>b. ?sg 0 (?urls ! 0) \<noteq> Body b" by simp_all
  with t have "?urls ! 0 \<notin> set (keys (fst (scrape_urls ?sg ?urls)))" by blast
  then have a: "''a'' \<notin> set (keys (fst (scrape_urls ?sg ?urls)))" by simp
  have "(1::nat) < length ?urls \<and> ?urls ! 1 = ''c'' \<and> (\<exists>b. ?sg 1 ''c'' = Body b)" by simp
  then have "\<exists>i < length ?urls. ?urls ! i = ''c'' \<and> (\<exists>b. ?sg i ''c'' = Body b)" by blast
  with t have c: "''c'' \<in> set (keys (fst (scrape_urls ?sg ?urls)))" by blast
  from l e a c show ?thesis by simp
qed

text \<open>
  Claim C6 as it is written fails for a URL that is listed twice: the second request for
  \<^verbatim>\<open>u\<close> raises, the failure is logged, and \<^verbatim>\<open>u\<close> is still a key of the
  returned mapping, with the text of the first request.
\<close>

theorem failed_url_present_counterexample:
  "example_flaky_get 1 ''u'' = Raised ''boom''
   \<and> scrape_urls example_flaky_get [''u'', ''u'']
       = ([(''u'', ''x'')], [Debug ''Scraped u: x...'', Error ''scraping error u: boom''])
   \<and> ''u'' \<in> set (keys (fst (scrape_urls example_flaky_get [''u'', ''u''])))"
  by code_simp

section \<open>Properties of read\_env\_variables\<close>

lemma read_env_variables_message:
  "read_env_variables env =
     (if env ''SEARCH_API_KEY'' \<noteq> None \<and> env ''SEARCH_PROJECT_KEY'' \<noteq> None
           \<and> env ''LLM_API_KEY'' \<noteq> None
      then Inr \<lparr> search_api_key = the (env ''SEARCH_API_KEY''),
                 search_project_id = the (env ''SEARCH_PROJECT_KEY''),
                 llm_api_key = the (env ''LLM_API_KEY''),
                 llm_base_url = (case env ''LLM_BASE_URL'' of
                                   None \<Rightarrow> ''https://api.openai.com/v1''
                                 | Some u \<Rightarrow> u) \<rparr>
      else Inl (Exception ([CHR 0x0A]
             @ (if env ''SEARCH_API_KEY'' = None
                then ''SEARCH_API_KEY'' @ '' env variable not set.'' @ [CHR 0x0A] else [])
             @ (if env ''SEARCH_PROJECT_KEY'' = None
                then ''SEARCH_PROJECT_KEY'' @ '' env variable not set.'' @ [CHR 0x0A] else [])
             @ (if env ''LLM_API_KEY'' = None
                then ''LLM_API_KEY'' @ '' env variable not set.'' @ [CHR 0x0A] else [])
             @ [CHR 0x0A])))"
  unfolding read_env_variables_def Let_def
  by (cases "env ''SEARCH_API_KEY''"; cases "env ''SEARCH_PROJECT_KEY''"; cases "env ''LLM_API_KEY''")
     simp_all

text \<open>
  Claim C7. If one of \<^verbatim>\<open>SEARCH_API_KEY\<close>, \<^verbatim>\<open>SEARCH_PROJECT_KEY\<close> and
  \<^verbatim>\<open>LLM_API_KEY\<close> is not set, \<^verbatim>\<open>read_env_variables\<close> raises an
  \<^verbatim>\<open>Exception\<close>, the constructor of \<^verbatim>\<open>Ask\<close> raises the same exception, and the
  command ends with it before it has entered any stage and without output; the message
  of the exception contains the name of every variable that is not set.
\<close>

theorem missing_credentials_fatal:
  assumes "environ ext ''SEARCH_API_KEY'' = None \<or> environ ext ''SEARCH_PROJECT_KEY'' = None
           \<or> environ ext ''LLM_API_KEY'' = None"
  shows "\<exists>msg. read_env_variables (environ ext) = Inl (Exception msg)
     \<and> ask_init (environ ext) (new_memory ext) = Inl (Exception msg)
     \<and> failure (search_extract_summarize ext opts) = Some (Exception msg)
     \<and> stages (search_extract_summarize ext opts) = []
     \<and> echoed (search_extract_summarize ext opts) = []
     \<and> (environ ext ''SEARCH_API_KEY'' = None \<longrightarrow> sublist ''SEARCH_API_KEY'' msg)
     \<and> (environ ext ''SEARCH_PROJECT_KEY'' = None \<longrightarrow> sublist ''SEARCH_PROJECT_KEY'' msg)
     \<and> (environ ext ''LLM_API_KEY'' = None \<longrightarrow> sublist ''LLM_API_KEY'' msg)"
proof -
  let ?env = "environ ext"
  define c1 where "c1 = (?env ''SEARCH_API_KEY'' = None)"
  define c2 where "c2 = (?env ''SEARCH_PROJECT_KEY'' = None)"
  define c3 where "c3 = (?env ''LLM_API_KEY'' = None)"
  define r where "r = '' env variable not set.'' @ [CHR 0x0A]"
  define m1 where "m1 = (if c1 then ''SEARCH_API_KEY'' @ r else [])"
  define m2 where "m2 = (if c2 then ''SEARCH_PROJECT_KEY'' @ r else [])"
  define m3 where "m3 = (if c3 then ''LLM_API_KEY'' @ r else [])"
  define msg where "msg = [CHR 0x0A] @ m1 @ m2 @ m3 @ [CHR 0x0A]"
  have missing: "\<not> (?env ''SEARCH_API_KEY'' \<noteq> None \<and> ?env ''SEARCH_PROJECT_KEY'' \<noteq> None
                    \<and> ?env ''LLM_API_KEY'' \<noteq> None)"
    using assms by auto
  have rd: "read_env_variables ?env = Inl (Exception msg)"
    unfolding read_env_variables_message[of ?env] msg_def m1_def m2_def m3_def r_def
      c1_def c2_def c3_def
    using missing by simp
  have ai: "ask_init ?env (new_memory ext) = Inl (Exception msg)"
    by (simp add: ask_init_def rd)
  have run: "search_extract_summarize ext opts =
      \<lparr> stages = [], links = [], scrape_results = [], chunking_results = [],
        results = [], echoed = [], failure = Some (Exception msg) \<rparr>"
    by (simp add: search_extract_summarize_def ai)
  have s1: "sublist ''SEARCH_API_KEY'' msg" if c1
  proof -
    have "msg = [CHR 0x0A] @ ''SEARCH_API_KEY'' @ (r @ m2 @ m3 @ [CHR 0x0A])"
      using that by (simp add: msg_def m1_def)
    then show ?thesis by (simp only: sublist_appendI)
  qed
  have s2: "sublist ''SEARCH_PROJECT_KEY'' msg" if c2
  proof -
    have "msg = ([CHR 0x0A] @ m1) @ ''SEARCH_PROJECT_KEY'' @ (r @ m3 @ [CHR 0x0A])"
      using that by (simp add: msg_def m2_def)
    then show ?thesis by (simp only: sublist_appendI)
  qed
  have s3: "sublist ''LLM_API_KEY'' msg" if c3
  proof -
    have "msg = ([CHR 0x0A] @ m1 @ m2) @ ''LLM_API_KEY'' @ (r @ [CHR 0x0A])"
      using that by (simp add: msg_def m3_def)
    then show ?thesis by (simp only: sublist_appendI)
  qed
  show ?thesis
    using rd ai run s1 s2 s3 unfolding c1_def c2_def c3_def
    by (intro exI[of _ msg]) simp
qed

text \<open>
  The theorem above at an environment that sets \<^verbatim>\<open>SEARCH_API_KEY\<close> only: the message
  names the two other variables.
\<close>

theorem missing_credentials_fatal_witness:
  "\<exists>msg. read_env_variables (Map.empty(''SEARCH_API_KEY'' \<mapsto> ''k'')) = Inl (Exception msg)
     \<and> sublist ''SEARCH_PROJECT_KEY'' msg \<and> sublist ''LLM_API_KEY'' msg"
proof -
  let ?ext = "\<lparr> environ = Map.empty(''SEARCH_API_KEY'' \<mapsto> ''k''), new_memory = (),
      search_web = (\<lambda>c q d s. Inr []), session_get = (\<lambda>i u. NoBody),
      memory_save = (\<lambda>m c i. Inr m), memory_search = (\<lambda>m q n. Inr []),
      chat_model = (\<lambda>c m p. Inr None) \<rparr>"
  have h: "environ ?ext ''SEARCH_API_KEY'' = None \<or> environ ?ext ''SEARCH_PROJECT_KEY'' = None
           \<or> environ ?ext ''LLM_API_KEY'' = None"
    by simp
  have k: "environ ?ext ''SEARCH_PROJECT_KEY'' = None" "environ ?ext ''LLM_API_KEY'' = None"
    by simp_all
  from missing_credentials_fatal[OF h] k show ?thesis
    by (simp del: fun_upd_apply) blast
qed

section \<open>The calls of save\_to\_db\<close>

text \<open>
  What \<^verbatim>\<open>save_to_db\<close> asks of the memory, whatever the memory does with it: when
  \<open>save\<close> only records its arguments, the record after \<^verbatim>\<open>save_to_db\<close> is one call
  per chunk, in the order of the mapping and of each chunk list, with the URL and the
  position of the chunk as metadata. \<^verbatim>\<open>save_to_db\<close> itself never looks an entry up and
  never removes one.
\<close>

lemma save_chunks_calls:
  "save_chunks (\<lambda>m c ident. Inr (m @ [(ident, c)])) m url ics
     = Inr (m @ map (\<lambda>(i, c). ((url, i), c)) ics)"
proof (induction ics arbitrary: m)
  case Nil
  then show ?case by simp
next
  case (Cons p ics)
  obtain i c where p: "p = (i, c)" by (cases p)
  show ?case by (simp add: p Cons.IH)
qed

lemma save_to_db_calls:
  "save_to_db (\<lambda>m c ident. Inr (m @ [(ident, c)])) m cr
     = Inr (m @ concat (map (\<lambda>(url, chunks).
                           map (\<lambda>(i, c). ((url, i), c)) (enumerate_from0 chunks)) cr))"
  unfolding save_to_db_def
proof (induction cr arbitrary: m)
  case Nil
  then show ?case by simp
next
  case (Cons p cr)
  obtain url chunks where p: "p = (url, chunks)" by (cases p)
  show ?case by (simp add: p save_chunks_calls Cons.IH)
qed

section \<open>Properties of run\_inference and of the command\<close>







lemma chunk_results_1000_100_total:
  "\<exists>cr. chunk_results sr 1000 100 = Inr cr"
  using chunk_items_total[of 1000 100 sr "[]"] by (simp add: chunk_results_def)

lemma run_chunking:
  "chunk_results (scrape_results (search_extract_summarize ext opts)) 1000 100
     = Inr (chunking_results (search_extract_summarize ext opts))"
proof -
  have e: "chunk_results ([] :: (string \<times> string) list) 1000 100 = Inr []"
    by (simp add: chunk_results_def)
  show ?thesis
    using chunk_results_1000_100_total[of "fst (scrape_urls (session_get ext) (links (search_extract_summarize ext opts)))"]
    by (auto simp: search_extract_summarize_def Let_def e split: sum.splits)
qed




lemma run_reaches_chunk:
  "Chunk \<in> set (stages (search_extract_summarize ext opts)) \<longleftrightarrow>
     (\<exists>cfg ls. read_env_variables (environ ext) = Inr cfg
        \<and> search_web ext cfg (cli_query opts) (cli_date_restrict opts) (cli_target_site opts)
             = Inr ls)"
  by (auto simp: search_extract_summarize_def ask_init_def Let_def split: sum.splits)

lemma run_chunk_ties:
  assumes "read_env_variables (environ ext) = Inr cfg"
    and "search_web ext cfg (cli_query opts) (cli_date_restrict opts) (cli_target_site opts) = Inr ls"
  shows "links (search_extract_summarize ext opts) = ls"
    and "scrape_results (search_extract_summarize ext opts) = fst (scrape_urls (session_get ext) ls)"
    and "Save \<in> set (stages (search_extract_summarize ext opts))"
    and "save_to_db (memory_save ext) (new_memory ext)
             (chunking_results (search_extract_summarize ext opts)) = Inl e
         \<Longrightarrow> failure (search_extract_summarize ext opts) = Some e
             \<and> stages (search_extract_summarize ext opts) = [Search, Scrape, Chunk, Save]"
    and "save_to_db (memory_save ext) (new_memory ext)
             (chunking_results (search_extract_summarize ext opts)) = Inr mem
         \<Longrightarrow> VectorSearch \<in> set (stages (search_extract_summarize ext opts))"
proof -
  obtain cr where cr: "chunk_results (fst (scrape_urls (session_get ext) ls)) 1000 100 = Inr cr"
    using chunk_results_1000_100_total by blast
  show "links (search_extract_summarize ext opts) = ls"
    using assms cr
    by (simp add: search_extract_summarize_def ask_init_def Let_def split: sum.splits)
  show "scrape_results (search_extract_summarize ext opts) = fst (scrape_urls (session_get ext) ls)"
    using assms cr
    by (simp add: search_extract_summarize_def ask_init_def Let_def split: sum.splits)
  show "Save \<in> set (stages (search_extract_summarize ext opts))"
    using assms cr
    by (simp add: search_extract_summarize_def ask_init_def Let_def split: sum.splits)
  have c: "chunking_results (search_extract_summarize ext opts) = cr"
    using assms cr
    by (simp add: search_extract_summarize_def ask_init_def Let_def split: sum.splits)
  show "failure (search_extract_summarize ext opts) = Some e
             \<and> stages (search_extract_summarize ext opts) = [Search, Scrape, Chunk, Save]"
    if "save_to_db (memory_save ext) (new_memory ext)
             (chunking_results (search_extract_summarize ext opts)) = Inl e"
    using that assms cr unfolding c
    by (simp add: search_extract_summarize_def ask_init_def Let_def)
  show "VectorSearch \<in> set (stages (search_extract_summarize ext opts))"
    if "save_to_db (memory_save ext) (new_memory ext)
             (chunking_results (search_extract_summarize ext opts)) = Inr mem"
    using that assms cr unfolding c
    by (simp add: search_extract_summarize_def ask_init_def Let_def split: sum.splits)
qed




lemma split_ws_word:
  "\<forall>c \<in> set s. \<not> isspace c \<Longrightarrow> split_ws s w = (if w @ s = [] then [] else [w @ s])"
  by (induction s arbitrary: w) simp_all

lemma normalise_word:
  assumes "s \<noteq> []" "\<forall>c \<in> set s. \<not> isspace c"
  shows "py_strip (py_join '' '' (py_split s)) = s"
proof -
  have "py_split s = [s]"
    using assms by (simp add: py_split_def split_ws_word)
  moreover have d: "dropWhile isspace xs = xs" if "\<forall>c \<in> set xs. \<not> isspace c" for xs
    using that by (cases xs) simp_all
  have "dropWhile isspace s = s"
    using assms(2) by (rule d)
  moreover have "dropWhile isspace (rev s) = rev s"
    using assms(2) by (intro d) simp
  ultimately show ?thesis by (simp add: py_strip_def)
qed

lemma example_page_props:
  "length example_page = 2000" "example_page \<noteq> []" "\<forall>c \<in> set example_page. \<not> isspace c"
proof -
  show l: "length example_page = 2000"
    by (simp add: example_page_def)
  then show "example_page \<noteq> []" by auto
  have "set example_page \<subseteq> set ''abc''"
    unfolding example_page_def by auto
  moreover have "\<forall>c \<in> set ''abc''. \<not> isspace c"
    by (simp add: isspace_def)
  ultimately show "\<forall>c \<in> set example_page. \<not> isspace c" by blast
qed

lemma example_page_windows:
  "map (\<lambda>k. take 1000 (drop (k * 900) example_page)) [0..<(length example_page + 899) div 900]
     = [replicate 900 (CHR ''a'') @ replicate 100 (CHR ''b''),
        replicate 900 (CHR ''b'') @ replicate 100 (CHR ''c''),
        replicate 200 (CHR ''c'')]"
proof -
  have n: "(length example_page + 899) div 900 = 3"
    by (simp add: example_page_props(1))
  have u: "[0..<3] = [0, 1, 2]" by (simp add: upt_rec)
  show ?thesis
    unfolding n u by (simp add: example_page_def)
qed



lemma run_scrape_distinct:
  "distinct (keys (scrape_results (search_extract_summarize ext opts)))"
proof -
  have d: "distinct (keys (fst (scrape_urls (session_get ext) ls)))" for ls
    unfolding scrape_urls_def by (rule scrape_loop_distinct) (simp add: keys_def)
  have e: "distinct (keys ([] :: (string \<times> string) list))" by (simp add: keys_def)
  show ?thesis
    using d e by (auto simp: search_extract_summarize_def Let_def split: sum.splits)
qed

lemma chunk_text_1000_100:
  "projr (chunk_text doc 1000 100)
     = map (\<lambda>k. take 1000 (drop (k * 900) doc)) [0..<(length doc + 899) div 900]"
proof -
  have "chunk_text doc 1000 100 =
     Inr (map (\<lambda>k. take (nat 1000) (drop (k * nat (1000 - 100)) doc))
            [0..<(length doc + nat (1000 - 100) - 1) div nat (1000 - 100)])"
    by (rule chunk_text_valid) simp_all
  moreover have "nat 1000 = 1000" "nat (1000 - 100) = 900"
    "length doc + 900 - 1 = length doc + 899"
    by simp_all
  ultimately have "chunk_text doc 1000 100 =
     Inr (map (\<lambda>k. take 1000 (drop (k * 900) doc)) [0..<(length doc + 899) div 900])"
    by (simp only:)
  then show ?thesis by (simp only: sum.sel)
qed

text \<open>
  Claim C10. In every run of the command, whatever the options of the command line and
  whatever lies outside ask.py, the chunking results are those of \<^verbatim>\<open>chunk_results\<close>
  with size 1000 and overlap 100 on the scrape results of the run, and this call never
  raises: every scraped document gets the windows of at most 1000 characters at the
  offsets \<open>0, 900, 1800, ...\<close> below its length. The run enters the chunking stage
  exactly when the credentials are set and the search returns links; then the scrape
  results are what \<^verbatim>\<open>scrape_urls\<close> returned for those links, all of them, and the
  chunking results are what \<^verbatim>\<open>save_to_db\<close> is called with. The options have no
  field for the size or the overlap.
\<close>

theorem coordinator_fixed_chunking:
  "chunk_results (scrape_results (search_extract_summarize ext opts)) 1000 100
     = Inr (chunking_results (search_extract_summarize ext opts))
   \<and> chunking_results (search_extract_summarize ext opts)
     = map (\<lambda>(url, doc).
              (url, map (\<lambda>k. take 1000 (drop (k * 900) doc)) [0..<(length doc + 899) div 900]))
         (scrape_results (search_extract_summarize ext opts))
   \<and> (Chunk \<in> set (stages (search_extract_summarize ext opts)) \<longleftrightarrow>
        (\<exists>cfg ls. read_env_variables (environ ext) = Inr cfg
           \<and> search_web ext cfg (cli_query opts) (cli_date_restrict opts) (cli_target_site opts)
                = Inr ls))
   \<and> (\<forall>cfg ls.
          read_env_variables (environ ext) = Inr cfg
        \<and> search_web ext cfg (cli_query opts) (cli_date_restrict opts) (cli_target_site opts)
             = Inr ls
        \<longrightarrow> links (search_extract_summarize ext opts) = ls
          \<and> scrape_results (search_extract_summarize ext opts)
              = fst (scrape_urls (session_get ext) ls)
          \<and> Save \<in> set (stages (search_extract_summarize ext opts))
          \<and> (\<forall>e. save_to_db (memory_save ext) (new_memory ext)
                    (chunking_results (search_extract_summarize ext opts)) = Inl e
                \<longrightarrow> failure (search_extract_summarize ext opts) = Some e
                  \<and> stages (search_extract_summarize ext opts) = [Search, Scrape, Chunk, Save])
          \<and> (\<forall>mem. save_to_db (memory_save ext) (new_memory ext)
                    (chunking_results (search_extract_summarize ext opts)) = Inr mem
                \<longrightarrow> VectorSearch \<in> set (stages (search_extract_summarize ext opts))))"
proof (intro conjI)
  let ?r = "search_extract_summarize ext opts"
  show c: "chunk_results (scrape_results ?r) 1000 100 = Inr (chunking_results ?r)"
    by (rule run_chunking)
  have "chunk_results (scrape_results ?r) 1000 100 =
          Inr (map (\<lambda>(url, doc). (url, projr (chunk_text doc 1000 100))) (scrape_results ?r))"
    by (rule chunk_results_map) (simp_all add: run_scrape_distinct)
  then have "chunking_results ?r =
          map (\<lambda>(url, doc). (url, projr (chunk_text doc 1000 100))) (scrape_results ?r)"
    using c by simp
  then show "chunking_results ?r
     = map (\<lambda>(url, doc).
              (url, map (\<lambda>k. take 1000 (drop (k * 900) doc)) [0..<(length doc + 899) div 900]))
         (scrape_results ?r)"
    unfolding chunk_text_1000_100 .
  show "Chunk \<in> set (stages ?r) \<longleftrightarrow>
        (\<exists>cfg ls. read_env_variables (environ ext) = Inr cfg
           \<and> search_web ext cfg (cli_query opts) (cli_date_restrict opts) (cli_target_site opts)
                = Inr ls)"
    by (rule run_reaches_chunk)
  show "\<forall>cfg ls.
          read_env_variables (environ ext) = Inr cfg
        \<and> search_web ext cfg (cli_query opts) (cli_date_restrict opts) (cli_target_site opts)
             = Inr ls
        \<longrightarrow> links ?r = ls
          \<and> scrape_results ?r = fst (scrape_urls (session_get ext) ls)
          \<and> Save \<in> set (stages ?r)
          \<and> (\<forall>e. save_to_db (memory_save ext) (new_memory ext) (chunking_results ?r) = Inl e
                \<longrightarrow> failure ?r = Some e \<and> stages ?r = [Search, Scrape, Chunk, Save])
          \<and> (\<forall>mem. save_to_db (memory_save ext) (new_memory ext) (chunking_results ?r) = Inr mem
                \<longrightarrow> VectorSearch \<in> set (stages ?r))"
  proof (intro allI impI)
    fix cfg ls
    assume h: "read_env_variables (environ ext) = Inr cfg
        \<and> search_web ext cfg (cli_query opts) (cli_date_restrict opts) (cli_target_site opts)
             = Inr ls"
    note t = run_chunk_ties[OF h[THEN conjunct1] h[THEN conjunct2]]
    show "links ?r = ls
          \<and> scrape_results ?r = fst (scrape_urls (session_get ext) ls)
          \<and> Save \<in> set (stages ?r)
          \<and> (\<forall>e. save_to_db (memory_save ext) (new_memory ext) (chunking_results ?r) = Inl e
                \<longrightarrow> failure ?r = Some e \<and> stages ?r = [Search, Scrape, Chunk, Save])
          \<and> (\<forall>mem. save_to_db (memory_save ext) (new_memory ext) (chunking_results ?r) = Inr mem
                \<longrightarrow> VectorSearch \<in> set (stages ?r))"
    proof (intro conjI allI impI)
      show "links ?r = ls" by (rule t(1))
      show "scrape_results ?r = fst (scrape_urls (session_get ext) ls)" by (rule t(2))
      show "Save \<in> set (stages ?r)" by (rule t(3))
      show "failure ?r = Some e"
        if "save_to_db (memory_save ext) (new_memory ext) (chunking_results ?r) = Inl e" for e
        using t(4)[OF that] by (rule conjunct1)
      show "stages ?r = [Search, Scrape, Chunk, Save]"
        if "save_to_db (memory_save ext) (new_memory ext) (chunking_results ?r) = Inl e" for e
        using t(4)[OF that] by (rule conjunct2)
      show "VectorSearch \<in> set (stages ?r)"
        if "save_to_db (memory_save ext) (new_memory ext) (chunking_results ?r) = Inr mem" for mem
        using that by (rule t(5))
    qed
  qed
qed

lemma example_page_env:
  "read_env_variables (environ example_page_externals) =
     Inr \<lparr> search_api_key = ''k'', search_project_id = ''p'', llm_api_key = ''l'',
           llm_base_url = ''https://api.openai.com/v1'' \<rparr>"
  by (simp add: read_env_variables_message example_page_externals_def)

lemma example_page_scrape:
  "fst (scrape_urls (session_get example_page_externals) [''u'', ''v'']) = [(''u'', example_page)]"
  by (simp add: scrape_urls_def enumerate_from0_def upt_rec example_page_externals_def Let_def
      normalise_word[OF example_page_props(2,3)])

text \<open>
  The theorem above at the example run with the page of 2000 characters: three
  fragments, at the offsets 0, 900 and 1800, of 1000, 1000 and 200 characters.
\<close>

theorem coordinator_fixed_chunking_witness:
  "scrape_results (search_extract_summarize example_page_externals example_options)
     = [(''u'', replicate 900 (CHR ''a'') @ replicate 900 (CHR ''b'') @ replicate 200 (CHR ''c''))]
   \<and> chunking_results (search_extract_summarize example_page_externals example_options)
     = [(''u'', [replicate 900 (CHR ''a'') @ replicate 100 (CHR ''b''),
                 replicate 900 (CHR ''b'') @ replicate 100 (CHR ''c''),
                 replicate 200 (CHR ''c'')])]"
proof -
  let ?r = "search_extract_summarize example_page_externals example_options"
  let ?cfg = "\<lparr> search_api_key = ''k'', search_project_id = ''p'', llm_api_key = ''l'',
           llm_base_url = ''https://api.openai.com/v1'' \<rparr>"
  note t = coordinator_fixed_chunking[of example_page_externals example_options]
  have sw: "search_web example_page_externals ?cfg (cli_query example_options)
      (cli_date_restrict example_options) (cli_target_site example_options) = Inr [''u'', ''v'']"
    by (simp add: example_page_externals_def)
  have h: "read_env_variables (environ example_page_externals) = Inr ?cfg
      \<and> search_web example_page_externals ?cfg (cli_query example_options)
      (cli_date_restrict example_options) (cli_target_site example_options) = Inr [''u'', ''v'']"
    using example_page_env sw by (rule conjI)
  note ties = t[THEN conjunct2, THEN conjunct2, THEN conjunct2, rule_format, OF h]
  have s: "scrape_results ?r = [(''u'', example_page)]"
    using ties[THEN conjunct2, THEN conjunct1] unfolding example_page_scrape .
  have c: "chunking_results ?r
     = map (\<lambda>(url, doc).
              (url, map (\<lambda>k. take 1000 (drop (k * 900) doc)) [0..<(length doc + 899) div 900]))
         (scrape_results ?r)"
    by (rule t[THEN conjunct2, THEN conjunct1])
  have c2: "chunking_results ?r
     = [(''u'', [replicate 900 (CHR ''a'') @ replicate 100 (CHR ''b''),
                 replicate 900 (CHR ''b'') @ replicate 100 (CHR ''c''),
                 replicate 200 (CHR ''c'')])]"
    unfolding c s by (simp only: list.map prod.case example_page_windows)
  have s2: "scrape_results ?r
     = [(''u'', replicate 900 (CHR ''a'') @ replicate 900 (CHR ''b'') @ replicate 200 (CHR ''c''))]"
    using s unfolding example_page_def .
  show ?thesis using s2 c2 by (rule conjI)
qed

end
